theory Spec2Isabelle
  imports Complex_Main "HOL-Library.Sublist" "HOL-Library.AList"
begin

section \<open>Error classification\<close>

text \<open>
  The provider (\<open>twitter-client.provider.ts\<close>) classifies every error by its message.
  \<open>ErrorType\<close> is the enum of the source, in the source's order.
\<close>

datatype ErrorType =
  TIMEOUT | NETWORK | RATE_LIMIT | AUTH | NOT_FOUND | ACCOUNT_LOCKED | ACCOUNT_SUSPENDED | UNKNOWN

text \<open>
  A message is the list of the bytes of its UTF-8 text. \<open>str_includes s p\<close> is
  \<^verbatim>\<open>s.includes(p)\<close>: \<open>p\<close> occurs in \<open>s\<close> as a contiguous run. Every pattern the provider looks
  for is ASCII, and an ASCII run occurs in the bytes exactly where it occurs in the text.
\<close>

fun str_includes :: "string \<Rightarrow> string \<Rightarrow> bool" where
  "str_includes [] p = (p = [])"
| "str_includes (c # cs) p = (prefix p (c # cs) \<or> str_includes cs p)"

text \<open>
  The value that \<^verbatim>\<open>JSON.parse\<close> returns. An object is the list of its members, each key
  once.
\<close>

datatype json =
  JNull | JBool bool | JNum rat | JStr string | JArr "json list" | JObj "(string \<times> json) list"

text \<open>
  The two functions of the language runtime that classification calls are not code of the
  provider; the functions below take them as the parameter \<open>js\<close>. \<open>JSON_parse js t\<close> is the
  value of \<^verbatim>\<open>JSON.parse(t)\<close>, \<open>None\<close> for the \<^verbatim>\<open>SyntaxError\<close> it throws on text that is not
  JSON; \<open>toLowerCase js t\<close> is \<^verbatim>\<open>t.toLowerCase()\<close>, which follows the Unicode case mapping.
\<close>

record Runtime =
  JSON_parse :: "string \<Rightarrow> json option"
  toLowerCase :: "string \<Rightarrow> string"

text \<open>
  Reading a member \<^verbatim>\<open>v.name\<close> for the two names the provider reads (\<open>errors\<close>, \<open>code\<close>):
  on \<^verbatim>\<open>null\<close> it throws a \<^verbatim>\<open>TypeError\<close> (outer \<open>None\<close>); on an object it is the member or
  \<^verbatim>\<open>undefined\<close> (inner \<open>None\<close>); on every other value it is \<^verbatim>\<open>undefined\<close>.
\<close>

fun getProp :: "json \<Rightarrow> string \<Rightarrow> json option option" where
  "getProp JNull name = None"
| "getProp (JObj members) name = Some (map_of members name)"
| "getProp v name = Some None"

text \<open>
  \<^verbatim>\<open>errors.some((err) => err.code === 326)\<close>: the scan stops at the first element whose
  code is the number 326, and throws at a \<^verbatim>\<open>null\<close> element it reaches before that.
\<close>

fun some_code_326 :: "json list \<Rightarrow> bool option" where
  "some_code_326 [] = Some False"
| "some_code_326 (err # errs) =
     (case getProp err ''code'' of
        None \<Rightarrow> None
      | Some code \<Rightarrow> if code = Some (JNum 326) then Some True else some_code_326 errs)"

text \<open>
  The \<^verbatim>\<open>try\<close> block of \<open>classifyError\<close>: true exactly when it returns \<open>ACCOUNT_LOCKED\<close>.
  Every exception inside it is swallowed by the empty \<^verbatim>\<open>catch\<close>.
\<close>

definition json_errors_326 :: "json option \<Rightarrow> bool" where
  "json_errors_326 parsed =
     (case parsed of
        None \<Rightarrow> False
      | Some errorObj \<Rightarrow>
          (case getProp errorObj ''errors'' of
             Some (Some (JArr errs)) \<Rightarrow> some_code_326 errs = Some True
           | _ \<Rightarrow> False))"

definition classifyError :: "Runtime \<Rightarrow> string \<Rightarrow> ErrorType" where
  "classifyError js error_message =
     (let message = toLowerCase js error_message in
      if json_errors_326 (JSON_parse js message) then ACCOUNT_LOCKED
      else if str_includes message ''response status: 401'' \<or> str_includes message ''status code: 401''
        then ACCOUNT_SUSPENDED
      else if str_includes message ''timeout'' \<or> str_includes message ''timed out'' then TIMEOUT
      else if str_includes message ''network'' \<or> str_includes message ''fetch failed''
              \<or> str_includes message ''connection'' \<or> str_includes message ''socket''
        then NETWORK
      else if str_includes message ''rate limit'' \<or> str_includes message ''too many requests''
              \<or> str_includes message ''429''
        then RATE_LIMIT
      else if str_includes message ''auth'' \<or> str_includes message ''login''
              \<or> str_includes message ''credentials'' \<or> str_includes message ''unauthorized''
              \<or> str_includes message ''401''
        then AUTH
      else if str_includes message ''not found'' \<or> str_includes message ''404'' then NOT_FOUND
      else if str_includes message ''account is temporarily locked''
              \<or> str_includes message ''account locked''
              \<or> str_includes message ''to unlock your account''
        then ACCOUNT_LOCKED
      else UNKNOWN)"

subsection \<open>The ordered rules of the specification\<close>

text \<open>
  Section 4.3 of the specification gives classification as nine ordered rules, first match
  wins, on the lower-cased message. Rule 1 in its words: the message parses as JSON and
  contains \<open>errors[].code == 326\<close>, that is, the body is an object whose member \<open>errors\<close> is an
  array with an entry that is an object whose member \<open>code\<close> is the number 326.
\<close>

definition has_code_326 :: "json \<Rightarrow> bool" where
  "has_code_326 entry =
     (case entry of JObj members \<Rightarrow> map_of members ''code'' = Some (JNum 326) | _ \<Rightarrow> False)"

definition spec_json_326 :: "json option \<Rightarrow> bool" where
  "spec_json_326 parsed =
     (case parsed of
        Some (JObj members) \<Rightarrow>
          (case map_of members ''errors'' of
             Some (JArr errs) \<Rightarrow> list_ex has_code_326 errs
           | _ \<Rightarrow> False)
      | _ \<Rightarrow> False)"

text \<open>
  \<open>first_match\<close> runs rules 2 to 8 from a table of (substrings, kind); rule 9 is the
  default. \<open>spec_rules\<close> is the table in the words of the specification; \<open>provider_rules\<close>
  differs from it in the first substring of rule 2 only.
\<close>

definition first_match :: "(string list \<times> ErrorType) list \<Rightarrow> string \<Rightarrow> ErrorType" where
  "first_match rules message =
     (case find (\<lambda>(patterns, kind). list_ex (str_includes message) patterns) rules of
        Some (patterns, kind) \<Rightarrow> kind
      | None \<Rightarrow> UNKNOWN)"

definition rules_3_to_8 :: "(string list \<times> ErrorType) list" where
  "rules_3_to_8 =
     [([''timeout'', ''timed out''], TIMEOUT),
      ([''network'', ''fetch failed'', ''connection'', ''socket''], NETWORK),
      ([''rate limit'', ''too many requests'', ''429''], RATE_LIMIT),
      ([''auth'', ''login'', ''credentials'', ''unauthorized'', ''401''], AUTH),
      ([''not found'', ''404''], NOT_FOUND),
      ([''account is temporarily locked'', ''account locked'', ''to unlock your account''],
       ACCOUNT_LOCKED)]"

definition spec_rules :: "(string list \<times> ErrorType) list" where
  "spec_rules = ([''status 401'', ''status code: 401''], ACCOUNT_SUSPENDED) # rules_3_to_8"

definition provider_rules :: "(string list \<times> ErrorType) list" where
  "provider_rules =
     ([''response status: 401'', ''status code: 401''], ACCOUNT_SUSPENDED) # rules_3_to_8"

definition classify_by_rules ::
  "(string list \<times> ErrorType) list \<Rightarrow> Runtime \<Rightarrow> string \<Rightarrow> ErrorType" where
  "classify_by_rules rules js error_message =
     (let message = toLowerCase js error_message in
      if spec_json_326 (JSON_parse js message) then ACCOUNT_LOCKED
      else first_match rules message)"

text \<open>
  The one shape of body on which the scan of the provider and rule 1 part: an array
  \<open>errors\<close> with a \<^verbatim>\<open>null\<close> entry before its first entry with code 326. There the scan throws
  at the \<^verbatim>\<open>null\<close>, the \<^verbatim>\<open>catch\<close> swallows the exception and the substring rules decide.
\<close>

fun null_before_326 :: "json list \<Rightarrow> bool" where
  "null_before_326 [] = False"
| "null_before_326 (err # errs) =
     (if err = JNull then list_ex has_code_326 errs
      else \<not> has_code_326 err \<and> null_before_326 errs)"

definition null_precedes_326 :: "json option \<Rightarrow> bool" where
  "null_precedes_326 parsed =
     (case parsed of
        Some (JObj members) \<Rightarrow>
          (case map_of members ''errors'' of
             Some (JArr errs) \<Rightarrow> null_before_326 errs
           | _ \<Rightarrow> False)
      | _ \<Rightarrow> False)"

subsection \<open>A runtime for the examples\<close>

text \<open>
  On a message of ASCII characters \<^verbatim>\<open>toLowerCase\<close> maps the capitals to their small letters
  and leaves every other character alone.
\<close>

definition ascii_toLowerCase_char :: "char \<Rightarrow> char" where
  "ascii_toLowerCase_char c =
     (case map_of (zip ''ABCDEFGHIJKLMNOPQRSTUVWXYZ'' ''abcdefghijklmnopqrstuvwxyz'') c of
        Some small \<Rightarrow> small
      | None \<Rightarrow> c)"

definition ascii_toLowerCase :: "string \<Rightarrow> string" where
  "ascii_toLowerCase s = map ascii_toLowerCase_char s"

text \<open>
  Two JSON error bodies: the one of the lock scenario of the specification, and one whose
  array has a \<^verbatim>\<open>null\<close> before the entry with code 326.
\<close>

definition locked_body_text :: string where
  "locked_body_text = ''{\"errors\":[{\"code\":326,\"message\":\"locked\"}]}''"

definition locked_body :: json where
  "locked_body =
     JObj [(''errors'', JArr [JObj [(''code'', JNum 326), (''message'', JStr ''locked'')]])]"

definition null_first_text :: string where
  "null_first_text = ''{\"errors\":[null,{\"code\":326}]}''"

definition null_first_body :: json where
  "null_first_body = JObj [(''errors'', JArr [JNull, JObj [(''code'', JNum 326)]])]"

text \<open>
  The runtime on the messages of the examples, all of them ASCII: the two bodies parse to
  their values, and no other message used below is JSON.
\<close>

definition example_JSON_parse :: "string \<Rightarrow> json option" where
  "example_JSON_parse t =
     (if t = locked_body_text then Some locked_body
      else if t = null_first_text then Some null_first_body
      else None)"

definition example_runtime :: Runtime where
  "example_runtime = \<lparr>JSON_parse = example_JSON_parse, toLowerCase = ascii_toLowerCase\<rparr>"


section \<open>Data model\<close>

datatype AccountStatus = HEALTHY | PROBATION | COOLDOWN | DISABLED | LOCKED | SUSPENDED

text \<open>
  Timestamps and durations are the integers that \<^verbatim>\<open>Date.now()\<close> counts in (milliseconds);
  counters start at 0 and only go up, are reset to 0, or go down through
  \<^verbatim>\<open>Math.max(0, n - 1)\<close>, so they are natural numbers and \<open>n - 1\<close> stops at 0.
  An optional field (\<^verbatim>\<open>cooldownUntil?\<close>) is an \<open>option\<close>, \<open>None\<close> for \<^verbatim>\<open>undefined\<close>.
\<close>

record ErrorEntry =
  error_type :: ErrorType
  timestamp :: int
  message :: string

record AccountHealth =
  status :: AccountStatus
  lastUsed :: int
  requestCount :: nat
  errorCounts :: "ErrorType \<Rightarrow> nat"
  consecutiveFailures :: nat
  consecutiveSuccesses :: nat
  cooldownUntil :: "int option"
  lastErrorType :: "ErrorType option"
  lastErrorMessage :: "string option"
  lastErrorTime :: "int option"
  errorHistory :: "ErrorEntry list"
  responseTimeHistory :: "int list"
  successRate :: rat
  lastSuccessTime :: "int option"
  requestHistory :: "int list"

datatype CircuitState = CLOSED | OPEN | HALF_OPEN

record Proxy =
  host :: string
  port :: string
  proxy_username :: string
  proxy_password :: string
  proxy_id :: string
  nextRequestAt :: int

record Cookie =
  key :: string
  cookie_value :: string

text \<open>
  An entry of \<open>data.json\<close>. \<open>usable\<close> and \<open>isLocked\<close> hold the truth value the provider
  tests (a missing flag is false).
\<close>

record Account =
  username :: string
  password :: string
  email :: string
  twofa :: string
  usable :: bool
  isLocked :: bool
  cookie :: "Cookie list"

text \<open>
  The fields of \<open>TwitterClientProvider\<close> that the functions below read or write.
  \<open>accountHealth\<close> and \<open>proxyAssignment\<close> are the two \<^verbatim>\<open>Map\<close>s keyed by username; the
  assignment keeps insertion order and holds, for each username, the index in \<open>proxies\<close> of
  the proxy object it refers to. \<open>data_json\<close> is the content of the registry file as the
  provider would read it, \<open>None\<close> when the file is missing or is not JSON.
\<close>

record Provider =
  credentials :: "Account list"
  accountHealth :: "string \<rightharpoonup> AccountHealth"
  credentialsLoaded :: bool
  loadingCredentials :: bool
  data_json :: "Account list option"
  proxies :: "Proxy list"
  proxyAssignment :: "(string \<times> nat) list"
  circuitState :: CircuitState
  circuitFailureCount :: nat
  circuitOpenTime :: int

definition MAX_CONSECUTIVE_FAILURES :: nat where "MAX_CONSECUTIVE_FAILURES = 50"
definition COOLDOWN_DURATION_MS :: int where "COOLDOWN_DURATION_MS = 2 * 60 * 1000"
definition ERROR_RESET_TIME_MS :: int where "ERROR_RESET_TIME_MS = 15 * 60 * 1000"
definition ERROR_HISTORY_LIMIT :: nat where "ERROR_HISTORY_LIMIT = 25"
definition AUTH_ERROR_THRESHOLD :: nat where "AUTH_ERROR_THRESHOLD = 50"
definition AUTH_ERROR_WINDOW_MS :: int where "AUTH_ERROR_WINDOW_MS = 24 * 60 * 60 * 1000"
definition RESPONSE_TIME_HISTORY_LIMIT :: nat where "RESPONSE_TIME_HISTORY_LIMIT = 50"
definition SUCCESS_RATE_WINDOW :: int where "SUCCESS_RATE_WINDOW = 100"
definition CIRCUIT_FAILURE_THRESHOLD :: nat where "CIRCUIT_FAILURE_THRESHOLD = 15"
definition CIRCUIT_RESET_TIMEOUT_MS :: int where "CIRCUIT_RESET_TIMEOUT_MS = 60 * 1000"
definition REQUESTS_PER_HOUR :: nat where "REQUESTS_PER_HOUR = 200"
definition RATE_LIMIT_WINDOW_MS :: int where "RATE_LIMIT_WINDOW_MS = 15 * 60 * 1000"

lemmas provider_constants =
  MAX_CONSECUTIVE_FAILURES_def COOLDOWN_DURATION_MS_def ERROR_RESET_TIME_MS_def
  ERROR_HISTORY_LIMIT_def AUTH_ERROR_THRESHOLD_def AUTH_ERROR_WINDOW_MS_def
  RESPONSE_TIME_HISTORY_LIMIT_def SUCCESS_RATE_WINDOW_def CIRCUIT_FAILURE_THRESHOLD_def
  CIRCUIT_RESET_TIMEOUT_MS_def REQUESTS_PER_HOUR_def RATE_LIMIT_WINDOW_MS_def

section \<open>Proxy pool\<close>

text \<open>
  \<open>assignProxyToAccount\<close>: a username that has a proxy keeps it; otherwise, unless the pool is
  empty, it gets \<open>proxies[proxyAssignment.size % proxies.length]\<close> and the pair is stored.
  The result is the reference to the proxy (its index in \<open>proxies\<close>), \<open>None\<close> for \<^verbatim>\<open>null\<close>.
\<close>

definition assignProxyToAccount :: "string \<Rightarrow> Provider \<Rightarrow> nat option \<times> Provider" where
  "assignProxyToAccount name s =
     (case map_of (proxyAssignment s) name of
        Some assignedProxy \<Rightarrow> (Some assignedProxy, s)
      | None \<Rightarrow>
          if length (proxies s) = 0 then (None, s)
          else
            (let assignedCount = length (proxyAssignment s);
                 proxyIndex = assignedCount mod length (proxies s)
             in (Some proxyIndex,
                 s\<lparr>proxyAssignment := AList.update name proxyIndex (proxyAssignment s)\<rparr>)))"

text \<open>
  The provider after the accounts \<open>names\<close> have asked for a proxy, one after the other,
  starting from the empty assignment over the pool \<open>pool\<close>. \<open>fresh_provider\<close> holds the
  initial values of the fields.
\<close>

definition fresh_provider :: "Proxy list \<Rightarrow> Provider" where
  "fresh_provider pool =
     \<lparr>credentials = [], accountHealth = Map.empty, credentialsLoaded = False,
      loadingCredentials = False, data_json = None, proxies = pool, proxyAssignment = [],
      circuitState = CLOSED, circuitFailureCount = 0, circuitOpenTime = 0\<rparr>"

definition assign_all :: "string list \<Rightarrow> Provider \<Rightarrow> Provider" where
  "assign_all names s = foldl (\<lambda>s' name. snd (assignProxyToAccount name s')) s names"


section \<open>Circuit breaker\<close>

text \<open>
  \<open>checkCircuitBreaker\<close> answers whether a dispatch may go ahead and moves \<open>OPEN\<close> to
  \<open>HALF_OPEN\<close> once the reset timeout has passed; \<open>updateCircuitBreaker\<close> records the
  outcome of a dispatch. \<open>now\<close> is the value of \<^verbatim>\<open>Date.now()\<close> at the call.
\<close>

definition checkCircuitBreaker :: "int \<Rightarrow> Provider \<Rightarrow> bool \<times> Provider" where
  "checkCircuitBreaker now s =
     (case circuitState s of
        CLOSED \<Rightarrow> (True, s)
      | OPEN \<Rightarrow>
          if now - circuitOpenTime s > CIRCUIT_RESET_TIMEOUT_MS
          then (True, s\<lparr>circuitState := HALF_OPEN\<rparr>)
          else (False, s)
      | HALF_OPEN \<Rightarrow> (True, s))"

definition updateCircuitBreaker :: "bool \<Rightarrow> int \<Rightarrow> Provider \<Rightarrow> Provider" where
  "updateCircuitBreaker success now s =
     (case circuitState s of
        CLOSED \<Rightarrow>
          if \<not> success then
            (let s1 = s\<lparr>circuitFailureCount := circuitFailureCount s + 1\<rparr>
             in if circuitFailureCount s1 \<ge> CIRCUIT_FAILURE_THRESHOLD
                then s1\<lparr>circuitState := OPEN, circuitOpenTime := now\<rparr>
                else s1)
          else s\<lparr>circuitFailureCount := circuitFailureCount s - 1\<rparr>
      | HALF_OPEN \<Rightarrow>
          if success then s\<lparr>circuitState := CLOSED, circuitFailureCount := 0\<rparr>
          else s\<lparr>circuitState := OPEN, circuitOpenTime := now\<rparr>
      | OPEN \<Rightarrow> s)"

section \<open>Account registry\<close>

text \<open>
  \<open>saveCredentials\<close> writes the whole account list to \<open>data.json\<close>; a failed write is logged and
  otherwise ignored. \<open>write_ok\<close> says whether \<^verbatim>\<open>fs.writeFile\<close> succeeds.
\<close>

definition saveCredentials :: "bool \<Rightarrow> Provider \<Rightarrow> Provider" where
  "saveCredentials write_ok s = (if write_ok then s\<lparr>data_json := Some (credentials s)\<rparr> else s)"

definition newHealth :: AccountHealth where
  "newHealth =
     \<lparr>status = HEALTHY, lastUsed = 0, requestCount = 0, errorCounts = (\<lambda>k. 0),
      consecutiveFailures = 0, consecutiveSuccesses = 0, cooldownUntil = None,
      lastErrorType = None, lastErrorMessage = None, lastErrorTime = None,
      errorHistory = [], responseTimeHistory = [], successRate = 1,
      lastSuccessTime = None, requestHistory = []\<rparr>"

text \<open>
  The callback of the \<^verbatim>\<open>forEach\<close> of \<open>loadCredentials\<close>: the account gets a health
  record if it has none; a locked account has its health status set to \<open>LOCKED\<close>, every
  other account is made usable.
\<close>

definition load_callback ::
  "Account \<Rightarrow> (string \<rightharpoonup> AccountHealth) \<Rightarrow> Account \<times> (string \<rightharpoonup> AccountHealth)" where
  "load_callback cred hm =
     (let hm1 = (if hm (username cred) = None then hm(username cred \<mapsto> newHealth) else hm)
      in if isLocked cred
         then (cred,
               case hm1 (username cred) of
                 Some health \<Rightarrow> hm1(username cred \<mapsto> health\<lparr>status := LOCKED\<rparr>)
               | None \<Rightarrow> hm1)
         else (cred\<lparr>usable := True\<rparr>, hm1))"

fun load_forEach ::
  "Account list \<Rightarrow> (string \<rightharpoonup> AccountHealth) \<Rightarrow> Account list \<times> (string \<rightharpoonup> AccountHealth)" where
  "load_forEach [] hm = ([], hm)"
| "load_forEach (cred # creds) hm =
     (let (cred', hm1) = load_callback cred hm;
          (creds', hm2) = load_forEach creds hm1
      in (cred' # creds', hm2))"

text \<open>An account of the file as a load leaves it in memory.\<close>

definition load_fix :: "Account \<Rightarrow> Account" where
  "load_fix c = (if isLocked c then c else c\<lparr>usable := True\<rparr>)"

text \<open>
  \<open>loadCredentials\<close> returns at once while another load is running, or when a non-empty
  account list is already loaded. Otherwise it reads the file; a file that cannot be read
  or parsed leaves the empty account list.
\<close>

definition loadCredentials :: "Provider \<Rightarrow> Provider" where
  "loadCredentials s =
     (if loadingCredentials s then s
      else if credentialsLoaded s \<and> length (credentials s) > 0 then s
      else
        (case data_json s of
           None \<Rightarrow> s\<lparr>credentials := [], loadingCredentials := False\<rparr>
         | Some parsed \<Rightarrow>
             (let (creds, hm) = load_forEach parsed (accountHealth s)
              in s\<lparr>credentials := creds, accountHealth := hm, credentialsLoaded := True,
                   loadingCredentials := False\<rparr>)))"

section \<open>Health tracker\<close>

text \<open>\<open>getAccountHealth\<close> creates the record of an account on first use.\<close>

definition getAccountHealth :: "string \<Rightarrow> Provider \<Rightarrow> AccountHealth \<times> Provider" where
  "getAccountHealth name s =
     (case accountHealth s name of
        Some health \<Rightarrow> (health, s)
      | None \<Rightarrow> (newHealth, s\<lparr>accountHealth := (accountHealth s)(name \<mapsto> newHealth)\<rparr>))"

text \<open>Writing a health record back: the source mutates the object held by the map.\<close>

definition setAccountHealth :: "string \<Rightarrow> AccountHealth \<Rightarrow> Provider \<Rightarrow> Provider" where
  "setAccountHealth name health s = s\<lparr>accountHealth := (accountHealth s)(name \<mapsto> health)\<rparr>"

definition countRecentAuthErrors :: "AccountHealth \<Rightarrow> int \<Rightarrow> int \<Rightarrow> nat" where
  "countRecentAuthErrors health windowMs now =
     length (filter (\<lambda>e. error_type e = AUTH \<and> now - timestamp e < windowMs)
               (errorHistory health))"

record RequestCheck =
  canRequest :: bool
  waitTime :: "int option"

definition trimWindow :: "int \<Rightarrow> int list \<Rightarrow> int list" where
  "trimWindow now history = filter (\<lambda>t. now - t < RATE_LIMIT_WINDOW_MS) history"

definition canAccountMakeRequest :: "string \<Rightarrow> int \<Rightarrow> Provider \<Rightarrow> RequestCheck \<times> Provider" where
  "canAccountMakeRequest name now s =
     (let (health0, s1) = getAccountHealth name s;
          health = health0\<lparr>requestHistory := trimWindow now (requestHistory health0)\<rparr>;
          s2 = setAccountHealth name health s1
      in if length (requestHistory health) < REQUESTS_PER_HOUR
         then (\<lparr>canRequest = True, waitTime = None\<rparr>, s2)
         else
           (let oldestRequest = requestHistory health ! 0;
                wait = RATE_LIMIT_WINDOW_MS - (now - oldestRequest)
            in (\<lparr>canRequest = False, waitTime = Some wait\<rparr>, s2)))"

text \<open>
  \<^verbatim>\<open>credentials.find((c) => c.username === username)\<close> followed by
  \<^verbatim>\<open>account.isLocked = true; account.usable = false\<close>: the first entry with that username.
\<close>

fun lockAccount :: "string \<Rightarrow> Account list \<Rightarrow> Account list" where
  "lockAccount name [] = []"
| "lockAccount name (c # cs) =
     (if username c = name then c\<lparr>isLocked := True, usable := False\<rparr> # cs
      else c # lockAccount name cs)"

text \<open>\<^verbatim>\<open>push\<close> onto a bounded history, dropping the oldest entry when the limit is passed.\<close>

definition push_bounded :: "nat \<Rightarrow> 'a \<Rightarrow> 'a list \<Rightarrow> 'a list" where
  "push_bounded limit x xs = (let ys = xs @ [x] in if length ys > limit then tl ys else ys)"

text \<open>
  The part of \<open>updateAccountHealth\<close> that runs on every call, before the outcome is looked at.
\<close>

definition recordRequest :: "int option \<Rightarrow> int \<Rightarrow> AccountHealth \<Rightarrow> AccountHealth" where
  "recordRequest responseTimeMs now health0 =
     (let h1 = health0\<lparr>lastUsed := now, requestCount := requestCount health0 + 1,
                      requestHistory := trimWindow now (requestHistory health0 @ [now])\<rparr>;
          h2 = (case responseTimeMs of
                  None \<Rightarrow> h1
                | Some rt \<Rightarrow>
                    h1\<lparr>responseTimeHistory :=
                         push_bounded RESPONSE_TIME_HISTORY_LIMIT rt (responseTimeHistory h1)\<rparr>);
          successCount =
            length (filter (\<lambda>e. now - timestamp e < SUCCESS_RATE_WINDOW) (errorHistory h2))
      in h2\<lparr>successRate :=
              (if requestCount h2 > 0
               then (of_nat (requestCount h2) - of_nat successCount) / of_nat (requestCount h2)
               else 1)\<rparr>)"

text \<open>The bookkeeping of a failure, before the \<^verbatim>\<open>switch\<close> on its kind.\<close>

definition recordError :: "ErrorType \<Rightarrow> string \<Rightarrow> int \<Rightarrow> AccountHealth \<Rightarrow> AccountHealth" where
  "recordError errorType msg now health =
     health\<lparr>consecutiveFailures := consecutiveFailures health + 1,
            consecutiveSuccesses := 0,
            errorCounts := (errorCounts health)(errorType := errorCounts health errorType + 1),
            lastErrorType := Some errorType,
            lastErrorMessage := Some msg,
            lastErrorTime := Some now,
            errorHistory :=
              push_bounded ERROR_HISTORY_LIMIT
                \<lparr>error_type = errorType, timestamp = now, message = msg\<rparr> (errorHistory health)\<rparr>"

text \<open>
  The cases of the \<^verbatim>\<open>switch\<close> that end in \<^verbatim>\<open>break\<close> (AUTH, RATE_LIMIT, NETWORK,
  NOT_FOUND, UNKNOWN and the default).
\<close>

definition applyErrorKind :: "ErrorType \<Rightarrow> int \<Rightarrow> AccountHealth \<Rightarrow> AccountHealth" where
  "applyErrorKind errorType now health =
     (case errorType of
        AUTH \<Rightarrow>
          if consecutiveFailures health \<ge> 5
          then health\<lparr>status := COOLDOWN, cooldownUntil := Some (now + COOLDOWN_DURATION_MS)\<rparr>
          else health
      | RATE_LIMIT \<Rightarrow>
          health\<lparr>status := COOLDOWN, cooldownUntil := Some (now + COOLDOWN_DURATION_MS)\<rparr>
      | NETWORK \<Rightarrow>
          if consecutiveFailures health \<ge> 10 then health\<lparr>status := PROBATION\<rparr> else health
      | NOT_FOUND \<Rightarrow> health\<lparr>consecutiveFailures := consecutiveFailures health - 1\<rparr>
      | _ \<Rightarrow>
          if consecutiveFailures health \<ge> MAX_CONSECUTIVE_FAILURES
          then health\<lparr>status := PROBATION\<rparr>
          else health)"

text \<open>
  \<open>updateAccountHealth\<close>. \<open>error\<close> is the message of the optional \<^verbatim>\<open>Error\<close> argument,
  \<open>responseTimeMs\<close> the optional round-trip time, \<open>now\<close> the clock at the call (the call
  runs without a pause, so \<open>countRecentAuthErrors\<close> reads the same clock). The result is
  the boolean the source returns and the provider after the call.
\<close>

definition updateAccountHealth ::
  "Runtime \<Rightarrow> bool \<Rightarrow> string \<Rightarrow> bool \<Rightarrow> string option \<Rightarrow> int option \<Rightarrow> int
     \<Rightarrow> Provider \<Rightarrow> bool \<times> Provider" where
  "updateAccountHealth js write_ok name success error responseTimeMs now s =
     (let (health0, s1) = getAccountHealth name s;
          h = recordRequest responseTimeMs now health0
      in if success then
           (let h1 = h\<lparr>consecutiveSuccesses := consecutiveSuccesses h + 1,
                          consecutiveFailures := 0, lastSuccessTime := Some now\<rparr>;
                h2 = (if status h1 = PROBATION \<and> consecutiveSuccesses h1 \<ge> 3
                      then h1\<lparr>status := HEALTHY\<rparr> else h1)
            in (True, setAccountHealth name h2 s1))
         else
           (case error of
              None \<Rightarrow> (True, setAccountHealth name h s1)
            | Some msg \<Rightarrow>
                (let errorType = classifyError js msg;
                     h1 = recordError errorType msg now h
                 in if errorType = TIMEOUT \<or> errorType = ACCOUNT_LOCKED
                       \<or> errorType = ACCOUNT_SUSPENDED
                    then
                      (let h2 = h1\<lparr>status :=
                                     (if errorType = ACCOUNT_SUSPENDED then SUSPENDED else LOCKED)\<rparr>;
                           s2 = setAccountHealth name h2 s1
                       in if list_ex (\<lambda>c. username c = name) (credentials s2)
                          then (False,
                                saveCredentials write_ok
                                  (s2\<lparr>credentials := lockAccount name (credentials s2)\<rparr>))
                          else (False, s2))
                    else
                      (let h2 = applyErrorKind errorType now h1;
                           recentAuthErrors = countRecentAuthErrors h2 AUTH_ERROR_WINDOW_MS now
                       in if recentAuthErrors \<ge> AUTH_ERROR_THRESHOLD
                          then (False, setAccountHealth name (h2\<lparr>status := DISABLED\<rparr>) s1)
                          else (True, setAccountHealth name h2 s1)))))"

text \<open>
  A run of failed calls with the same error message on one account, one call at each of
  the given instants; the result lists what the calls returned.
\<close>

fun repeatFailure ::
  "Runtime \<Rightarrow> bool \<Rightarrow> string \<Rightarrow> string \<Rightarrow> int list \<Rightarrow> Provider
     \<Rightarrow> bool list \<times> Provider" where
  "repeatFailure js write_ok name msg [] s = ([], s)"
| "repeatFailure js write_ok name msg (now # instants) s =
     (let (keepUsable, s1) =
            updateAccountHealth js write_ok name False (Some msg) None now s;
          (rest, s2) = repeatFailure js write_ok name msg instants s1
      in (keepUsable # rest, s2))"

text \<open>
  The health record of an account as \<open>getAccountHealth\<close> reports it: the stored one, or a new
  healthy one.
\<close>

definition healthOf :: "Provider \<Rightarrow> string \<Rightarrow> AccountHealth" where
  "healthOf s name = (case accountHealth s name of Some health \<Rightarrow> health | None \<Rightarrow> newHealth)"

section \<open>Account selection\<close>






section \<open>Login and the dispatcher's error handling\<close>










section \<open>Example data\<close>

text \<open>Concrete accounts, proxies and states on which the results below are run.\<close>

definition example_account :: "string \<Rightarrow> bool \<Rightarrow> bool \<Rightarrow> Account" where
  "example_account name u l =
     \<lparr>username = name, password = ''secret'', email = ''user@example.org'', twofa = [],
      usable = u, isLocked = l, cookie = []\<rparr>"

definition example_proxy :: "string \<Rightarrow> Proxy" where
  "example_proxy h =
     \<lparr>host = h, port = ''8080'', proxy_username = ''u'', proxy_password = ''p'',
      proxy_id = ''proxy-0'', nextRequestAt = 0\<rparr>"

definition provider_with :: "Account list \<Rightarrow> (string \<rightharpoonup> AccountHealth) \<Rightarrow> Provider" where
  "provider_with accs hm =
     (fresh_provider [])\<lparr>credentials := accs, accountHealth := hm, credentialsLoaded := True\<rparr>"

definition busy_provider :: Provider where
  "busy_provider =
     provider_with [example_account ''alice'' True False]
       [''alice'' \<mapsto> newHealth\<lparr>requestHistory := replicate 200 5000\<rparr>]"

definition example_pool :: "Proxy list" where
  "example_pool = [example_proxy ''10.0.0.1'', example_proxy ''10.0.0.2'', example_proxy ''10.0.0.3'']"

definition stored_accounts :: "Account list" where
  "stored_accounts = [example_account ''alice'' False False, example_account ''bob'' False True]"

definition alice_provider :: Provider where
  "alice_provider = provider_with [example_account ''alice'' True False] Map.empty"

definition one_failure_provider :: Provider where
  "one_failure_provider =
     snd (updateAccountHealth example_runtime True ''alice'' False (Some ''boom'') None 1000 alice_provider)"



text \<open>
  What the dispatcher does with an account before each attempt: it records a request with
  \<^verbatim>\<open>updateAccountHealth(username, false)\<close>. \<open>requestsAt\<close> is a run of such calls on one account,
  one at each of the given readings of \<^verbatim>\<open>Date.now()\<close>.
\<close>

definition requestsAt :: "Runtime \<Rightarrow> string \<Rightarrow> int list \<Rightarrow> Provider \<Rightarrow> Provider" where
  "requestsAt js name instants s =
     fold (\<lambda>now st. snd (updateAccountHealth js True name False None None now st)) instants s"

text \<open>
  Two hundred requests on one account, the first at 9000 ms and the others at 5000 ms:
  \<^verbatim>\<open>Date.now()\<close> reads the wall clock, which was set back after the first request.
\<close>

definition unordered_provider :: Provider where
  "unordered_provider =
     requestsAt example_runtime ''alice'' (9000 # replicate 199 5000) alice_provider"








section \<open>Concurrency gate capacity\<close>

text \<open>
  The constructor of \<open>TwitterClientProvider\<close> computes
  \<^verbatim>\<open>Math.max(50, Math.min(50, cpuCount * 4))\<close> from the number of CPU cores.
\<close>

definition MAX_CONCURRENT_OPERATIONS :: "nat \<Rightarrow> nat" where
  "MAX_CONCURRENT_OPERATIONS cpuCount = max 50 (min 50 (cpuCount * 4))"

text \<open>
  C8 (as stated in the specification) asks for capacity \<open>max 50 (cpuCount * 4)\<close>, above 50
  for more than 12 cores. With 16 cores the constructor yields 50, not 64.
\<close>

theorem C8_capacity_counterexample:
  "MAX_CONCURRENT_OPERATIONS 16 \<noteq> max 50 (16 * 4)
   \<and> MAX_CONCURRENT_OPERATIONS 16 = 50
   \<and> \<not> (50 < MAX_CONCURRENT_OPERATIONS 16)"
  by (simp add: MAX_CONCURRENT_OPERATIONS_def)

text \<open>
  C8 (amended): the inner \<open>min\<close> caps the core-dependent term at 50 and the outer \<open>max\<close>
  raises it to 50, so the capacity of the gate is 50 for every number of cores.
\<close>

theorem C8_capacity_constant:
  "MAX_CONCURRENT_OPERATIONS cpuCount = 50"
  by (simp add: MAX_CONCURRENT_OPERATIONS_def)

section \<open>Results on error classification\<close>

text \<open>\<open>str_includes\<close> is the substring test.\<close>

lemma str_includes_iff: "str_includes s p \<longleftrightarrow> (\<exists>a b. s = a @ p @ b)"
proof (induction s)
  case Nil
  then show ?case by auto
next
  case (Cons c cs)
  show ?case
  proof
    assume "str_includes (c # cs) p"
    then consider "prefix p (c # cs)" | "str_includes cs p" by auto
    then show "\<exists>a b. c # cs = a @ p @ b"
    proof cases
      case 1
      then obtain b where "c # cs = p @ b" by (auto simp: prefix_def)
      then have "c # cs = [] @ p @ b" by simp
      then show ?thesis by blast
    next
      case 2
      with Cons.IH obtain a b where "cs = a @ p @ b" by blast
      then have "c # cs = (c # a) @ p @ b" by simp
      then show ?thesis by blast
    qed
  next
    assume "\<exists>a b. c # cs = a @ p @ b"
    then obtain a b where ab: "c # cs = a @ p @ b" by blast
    show "str_includes (c # cs) p"
    proof (cases a)
      case Nil
      with ab have "prefix p (c # cs)" by (simp add: prefix_def)
      then show ?thesis by simp
    next
      case (Cons x xs)
      with ab have "cs = xs @ p @ b" by simp
      with Cons.IH have "str_includes cs p" by blast
      then show ?thesis by simp
    qed
  qed
qed


text \<open>
  Rule 1 against the scan of the provider: the scan answers true exactly when an entry has
  code 326 and no \<^verbatim>\<open>null\<close> entry comes before the first such entry.
\<close>

lemma has_code_326_simps [simp]:
  "has_code_326 JNull = False"
  "has_code_326 (JBool b) = False"
  "has_code_326 (JNum n) = False"
  "has_code_326 (JStr t) = False"
  "has_code_326 (JArr vs) = False"
  "has_code_326 (JObj members) = (map_of members ''code'' = Some (JNum 326))"
  by (simp_all add: has_code_326_def)

lemma some_code_326_iff:
  "some_code_326 errs = Some True \<longleftrightarrow> list_ex has_code_326 errs \<and> \<not> null_before_326 errs"
proof (induction errs)
  case Nil
  show ?case by simp
next
  case (Cons err errs)
  show ?case by (cases err) (simp_all add: Cons.IH)
qed

lemma json_errors_326_iff:
  "json_errors_326 parsed \<longleftrightarrow> spec_json_326 parsed \<and> \<not> null_precedes_326 parsed"
proof (cases parsed)
  case None
  then show ?thesis by (simp add: json_errors_326_def spec_json_326_def)
next
  case (Some body)
  show ?thesis
  proof (cases body)
    case (JObj members)
    show ?thesis
    proof (cases "map_of members ''errors''")
      case None
      with Some JObj show ?thesis
        by (simp add: json_errors_326_def spec_json_326_def)
    next
      case (Some errors)
      with \<open>parsed = Some body\<close> JObj show ?thesis
        by (cases errors)
           (simp_all add: json_errors_326_def spec_json_326_def null_precedes_326_def
              some_code_326_iff)
    qed
  qed (simp_all add: Some json_errors_326_def spec_json_326_def)
qed

lemma example_lower_case:
  "toLowerCase example_runtime ''status 401'' = ''status 401''"
  "toLowerCase example_runtime null_first_text = null_first_text"
  "toLowerCase example_runtime locked_body_text = locked_body_text"
  "toLowerCase example_runtime ''Response status: 401'' = ''response status: 401''"
  "toLowerCase example_runtime ''RESPONSE STATUS: 401'' = ''response status: 401''"
  by (simp_all add: example_runtime_def ascii_toLowerCase_def ascii_toLowerCase_char_def
      null_first_text_def locked_body_text_def)

lemma example_parse:
  "JSON_parse example_runtime ''status 401'' = None"
  "JSON_parse example_runtime ''response status: 401'' = None"
  "JSON_parse example_runtime null_first_text = Some null_first_body"
  "JSON_parse example_runtime locked_body_text = Some locked_body"
  by (simp_all add: example_runtime_def example_JSON_parse_def null_first_text_def
      locked_body_text_def)

text \<open>None of the substrings of rules 2 to 8 occurs in the body with the \<^verbatim>\<open>null\<close> entry.\<close>

lemma null_first_text_includes:
  "\<not> str_includes null_first_text ''response status: 401''"
  "\<not> str_includes null_first_text ''status code: 401''"
  "\<not> str_includes null_first_text ''timeout''"
  "\<not> str_includes null_first_text ''timed out''"
  "\<not> str_includes null_first_text ''network''"
  "\<not> str_includes null_first_text ''fetch failed''"
  "\<not> str_includes null_first_text ''connection''"
  "\<not> str_includes null_first_text ''socket''"
  "\<not> str_includes null_first_text ''rate limit''"
  "\<not> str_includes null_first_text ''too many requests''"
  "\<not> str_includes null_first_text ''429''"
  "\<not> str_includes null_first_text ''auth''"
  "\<not> str_includes null_first_text ''login''"
  "\<not> str_includes null_first_text ''credentials''"
  "\<not> str_includes null_first_text ''unauthorized''"
  "\<not> str_includes null_first_text ''401''"
  "\<not> str_includes null_first_text ''not found''"
  "\<not> str_includes null_first_text ''404''"
  "\<not> str_includes null_first_text ''account is temporarily locked''"
  "\<not> str_includes null_first_text ''account locked''"
  "\<not> str_includes null_first_text ''to unlock your account''"
  by (simp_all add: null_first_text_def)

text \<open>
  C5 (as stated in the specification): classification is the first match of the nine ordered
  rules of section 4.3, whose rule 2 reads: contains \<open>status 401\<close> or \<open>status code: 401\<close>. The
  message \<open>status 401\<close> is not JSON, so rule 1 does not apply; rule 2 of the specification
  makes it \<open>ACCOUNT_SUSPENDED\<close>, the provider classifies it as \<open>AUTH\<close>. The body
  \<^verbatim>\<open>{"errors":[null,{"code":326}]}\<close> parses as JSON and has an entry with code 326, so rule 1
  makes it \<open>ACCOUNT_LOCKED\<close>; the scan of the provider throws at the \<^verbatim>\<open>null\<close> entry and
  the message ends as \<open>UNKNOWN\<close>.
\<close>

theorem C5_counterexample:
  "classifyError example_runtime ''status 401'' = AUTH
   \<and> classify_by_rules spec_rules example_runtime ''status 401'' = ACCOUNT_SUSPENDED
   \<and> classifyError example_runtime null_first_text = UNKNOWN
   \<and> classify_by_rules spec_rules example_runtime null_first_text = ACCOUNT_LOCKED"
proof -
  have a: "classifyError example_runtime ''status 401'' = AUTH"
    by (simp add: classifyError_def example_lower_case example_parse
        json_errors_326_def Let_def)
  have b: "classify_by_rules spec_rules example_runtime ''status 401'' = ACCOUNT_SUSPENDED"
    by (simp add: classify_by_rules_def example_lower_case example_parse
        spec_json_326_def spec_rules_def first_match_def Let_def)
  have c: "classifyError example_runtime null_first_text = UNKNOWN"
    by (simp add: classifyError_def example_lower_case example_parse
        json_errors_326_def null_first_body_def null_first_text_includes Let_def)
  have d: "classify_by_rules spec_rules example_runtime null_first_text = ACCOUNT_LOCKED"
    by (simp add: classify_by_rules_def example_lower_case example_parse
        spec_json_326_def null_first_body_def Let_def)
  from a b c d show ?thesis by simp
qed

text \<open>
  C5 (amended): for every message whose JSON body has no \<^verbatim>\<open>null\<close> entry in \<open>errors\<close> before
  the first entry with code 326 (every message that is not such a body included),
  \<open>classifyError\<close> returns the first match of the nine ordered rules on the lower-cased
  message, where rule 1 is that of the specification (the message parses as JSON and an
  entry of \<open>errors\<close> has code 326), rule 2 tests \<open>response status: 401\<close> and
  \<open>status code: 401\<close>, and rules 3 to 9 are those of the specification. For every message
  the kind is a function of the lower-cased message alone: two messages with the same
  lower-cased text get the same kind.
\<close>

theorem C5_classify:
  assumes "\<not> null_precedes_326 (JSON_parse js (toLowerCase js msg))"
  shows "classifyError js msg = classify_by_rules provider_rules js msg
       \<and> (toLowerCase js msg = toLowerCase js msg' \<longrightarrow>
            classifyError js msg = classifyError js msg')"
proof
  from assms
  have "json_errors_326 (JSON_parse js (toLowerCase js msg))
          = spec_json_326 (JSON_parse js (toLowerCase js msg))"
    by (simp add: json_errors_326_iff)
  then show "classifyError js msg = classify_by_rules provider_rules js msg"
    by (simp add: classifyError_def classify_by_rules_def provider_rules_def rules_3_to_8_def
        first_match_def Let_def)
next
  show "toLowerCase js msg = toLowerCase js msg' \<longrightarrow> classifyError js msg = classifyError js msg'"
    by (simp add: classifyError_def Let_def)
qed

theorem C5_classify_witness:
  "\<not> null_precedes_326 (JSON_parse example_runtime (toLowerCase example_runtime locked_body_text))
   \<and> classifyError example_runtime locked_body_text = ACCOUNT_LOCKED
   \<and> \<not> null_precedes_326
          (JSON_parse example_runtime (toLowerCase example_runtime ''Response status: 401''))
   \<and> classifyError example_runtime ''Response status: 401'' = ACCOUNT_SUSPENDED
   \<and> classifyError example_runtime ''RESPONSE STATUS: 401'' = ACCOUNT_SUSPENDED"
proof -
  have n1: "\<not> null_precedes_326
               (JSON_parse example_runtime (toLowerCase example_runtime locked_body_text))"
    unfolding example_lower_case example_parse
    by (simp add: null_precedes_326_def locked_body_def Let_def)
  have n2: "\<not> null_precedes_326
               (JSON_parse example_runtime (toLowerCase example_runtime ''Response status: 401''))"
    unfolding example_lower_case example_parse by (simp add: null_precedes_326_def)
  have low: "toLowerCase example_runtime ''Response status: 401''
               = toLowerCase example_runtime ''RESPONSE STATUS: 401''"
    unfolding example_lower_case by (rule refl)
  have r1: "classify_by_rules provider_rules example_runtime locked_body_text = ACCOUNT_LOCKED"
    by (simp add: classify_by_rules_def example_lower_case example_parse
        spec_json_326_def locked_body_def Let_def)
  have r2: "classify_by_rules provider_rules example_runtime ''Response status: 401''
              = ACCOUNT_SUSPENDED"
    by (simp add: classify_by_rules_def example_lower_case example_parse
        spec_json_326_def provider_rules_def first_match_def Let_def)
  note locked = C5_classify [OF n1, where msg' = locked_body_text]
  note suspended = C5_classify [OF n2, where msg' = "''RESPONSE STATUS: 401''"]
  from locked have e1: "classifyError example_runtime locked_body_text
              = classify_by_rules provider_rules example_runtime locked_body_text"
    by (rule conjunct1)
  from suspended have e2: "classifyError example_runtime ''Response status: 401''
              = classify_by_rules provider_rules example_runtime ''Response status: 401''"
    by (rule conjunct1)
  from suspended [THEN conjunct2] low
  have e3: "classifyError example_runtime ''Response status: 401''
              = classifyError example_runtime ''RESPONSE STATUS: 401''" by (rule mp)
  from e1 r1 have l: "classifyError example_runtime locked_body_text = ACCOUNT_LOCKED" by simp
  from e2 r2 have s: "classifyError example_runtime ''Response status: 401'' = ACCOUNT_SUSPENDED"
    by simp
  with e3 have "classifyError example_runtime ''RESPONSE STATUS: 401'' = ACCOUNT_SUSPENDED" by simp
  with n1 n2 l s show ?thesis by simp
qed

section \<open>Results on the circuit breaker\<close>

text \<open>
  C3 (as stated in the specification): an open breaker lets the next attempt through once
  \<open>now - openedAt \<ge> 60s\<close>. With the breaker opened at time 0, a check at exactly 60000 ms is
  still refused and the breaker stays open.
\<close>

theorem C3_counterexample:
  "60 * 1000 \<le> (60000::int) - circuitOpenTime ((fresh_provider [])\<lparr>circuitState := OPEN, circuitOpenTime := 0\<rparr>)
   \<and> fst (checkCircuitBreaker 60000 ((fresh_provider [])\<lparr>circuitState := OPEN, circuitOpenTime := 0\<rparr>)) = False
   \<and> circuitState (snd (checkCircuitBreaker 60000 ((fresh_provider [])\<lparr>circuitState := OPEN, circuitOpenTime := 0\<rparr>))) = OPEN"
  by (simp add: checkCircuitBreaker_def fresh_provider_def CIRCUIT_RESET_TIMEOUT_MS_def)


text \<open>
  C3 (amended): in \<open>CLOSED\<close> every dispatch is allowed, a failure adds one to the failure
  count and, when the count reaches 15, opens the breaker and records the time, a success
  takes one off the count (not below 0); in \<open>OPEN\<close> a dispatch is refused while
  \<open>now - openedAt \<le> 60s\<close> and, once \<open>now - openedAt > 60s\<close>, is allowed with the breaker
  moved to \<open>HALF_OPEN\<close>; in \<open>HALF_OPEN\<close> a dispatch is allowed, a success closes the breaker
  with the count reset to 0 and a failure opens it again with a new opening time.
\<close>

theorem C3_circuit_breaker:
  "(circuitState s = CLOSED \<longrightarrow>
      checkCircuitBreaker now s = (True, s)
      \<and> updateCircuitBreaker False now s =
          (if circuitFailureCount s + 1 \<ge> 15
           then s\<lparr>circuitFailureCount := circuitFailureCount s + 1, circuitState := OPEN,
                  circuitOpenTime := now\<rparr>
           else s\<lparr>circuitFailureCount := circuitFailureCount s + 1\<rparr>)
      \<and> updateCircuitBreaker True now s = s\<lparr>circuitFailureCount := circuitFailureCount s - 1\<rparr>)
   \<and> (circuitState s = OPEN \<longrightarrow>
        checkCircuitBreaker now s =
          (if now - circuitOpenTime s > 60 * 1000 then (True, s\<lparr>circuitState := HALF_OPEN\<rparr>)
           else (False, s)))
   \<and> (circuitState s = HALF_OPEN \<longrightarrow>
        checkCircuitBreaker now s = (True, s)
        \<and> updateCircuitBreaker True now s = s\<lparr>circuitState := CLOSED, circuitFailureCount := 0\<rparr>
        \<and> updateCircuitBreaker False now s = s\<lparr>circuitState := OPEN, circuitOpenTime := now\<rparr>)"
  by (simp add: checkCircuitBreaker_def updateCircuitBreaker_def CIRCUIT_RESET_TIMEOUT_MS_def
      CIRCUIT_FAILURE_THRESHOLD_def Let_def)

theorem C3_circuit_breaker_witness:
  "circuitState (updateCircuitBreaker False 5000 ((fresh_provider [])\<lparr>circuitFailureCount := 14\<rparr>)) = OPEN
   \<and> circuitOpenTime (updateCircuitBreaker False 5000 ((fresh_provider [])\<lparr>circuitFailureCount := 14\<rparr>)) = 5000
   \<and> checkCircuitBreaker 65000 ((fresh_provider [])\<lparr>circuitState := OPEN, circuitOpenTime := 5000\<rparr>)
        = (False, (fresh_provider [])\<lparr>circuitState := OPEN, circuitOpenTime := 5000\<rparr>)
   \<and> fst (checkCircuitBreaker 65001 ((fresh_provider [])\<lparr>circuitState := OPEN, circuitOpenTime := 5000\<rparr>))
   \<and> circuitState (snd (checkCircuitBreaker 65001
          ((fresh_provider [])\<lparr>circuitState := OPEN, circuitOpenTime := 5000\<rparr>))) = HALF_OPEN
   \<and> circuitState (updateCircuitBreaker True 70000
          ((fresh_provider [])\<lparr>circuitState := HALF_OPEN, circuitFailureCount := 15\<rparr>)) = CLOSED
   \<and> circuitFailureCount (updateCircuitBreaker True 70000
          ((fresh_provider [])\<lparr>circuitState := HALF_OPEN, circuitFailureCount := 15\<rparr>)) = 0"
  using C3_circuit_breaker [of "(fresh_provider [])\<lparr>circuitFailureCount := 14\<rparr>" 5000]
    C3_circuit_breaker [of "(fresh_provider [])\<lparr>circuitState := OPEN, circuitOpenTime := 5000\<rparr>" 65000]
    C3_circuit_breaker [of "(fresh_provider [])\<lparr>circuitState := OPEN, circuitOpenTime := 5000\<rparr>" 65001]
    C3_circuit_breaker [of "(fresh_provider [])\<lparr>circuitState := HALF_OPEN, circuitFailureCount := 15\<rparr>" 70000]
  by (simp add: fresh_provider_def)

section \<open>Results on the health tracker\<close>

lemma getAccountHealth_eq:
  "getAccountHealth name s = (healthOf s name, setAccountHealth name (healthOf s name) s)"
proof (cases "accountHealth s name")
  case None
  then show ?thesis by (simp add: getAccountHealth_def healthOf_def setAccountHealth_def)
next
  case (Some h)
  then have "(accountHealth s)(name \<mapsto> h) = accountHealth s" by (simp add: fun_upd_idem)
  with Some show ?thesis by (simp add: getAccountHealth_def healthOf_def setAccountHealth_def)
qed

lemma setAccountHealth_twice [simp]:
  "setAccountHealth name h (setAccountHealth name h' s) = setAccountHealth name h s"
  by (simp add: setAccountHealth_def)

lemma healthOf_setAccountHealth [simp]:
  "healthOf (setAccountHealth name h s) name' = (if name' = name then h else healthOf s name')"
  by (simp add: healthOf_def setAccountHealth_def)

lemma setAccountHealth_fields [simp]:
  "credentials (setAccountHealth name h s) = credentials s"
  "data_json (setAccountHealth name h s) = data_json s"
  "credentialsLoaded (setAccountHealth name h s) = credentialsLoaded s"
  "loadingCredentials (setAccountHealth name h s) = loadingCredentials s"
  by (simp_all add: setAccountHealth_def)

lemma canAccountMakeRequest_eq:
  "canAccountMakeRequest name now s =
     (let history = trimWindow now (requestHistory (healthOf s name))
      in (if length history < REQUESTS_PER_HOUR
          then \<lparr>canRequest = True, waitTime = None\<rparr>
          else \<lparr>canRequest = False,
                 waitTime = Some (RATE_LIMIT_WINDOW_MS - (now - history ! 0))\<rparr>,
          setAccountHealth name ((healthOf s name)\<lparr>requestHistory := history\<rparr>) s))"
  by (simp add: canAccountMakeRequest_def getAccountHealth_eq Let_def)


lemma hd_sorted_Min:
  assumes "sorted xs" "xs \<noteq> []"
  shows "hd xs = Min (set xs)"
proof (cases xs)
  case Nil
  with assms show ?thesis by simp
next
  case (Cons y ys)
  with assms have "\<forall>z\<in>set ys. y \<le> z" by simp
  then have "Min (insert y (set ys)) = y"
    by (intro Min_eqI) auto
  with Cons show ?thesis by simp
qed


lemma updateAccountHealth_no_error:
  "updateAccountHealth js w name False None rt now s =
     (True, setAccountHealth name (recordRequest rt now (healthOf s name)) s)"
  by (simp add: updateAccountHealth_def getAccountHealth_eq Let_def)

lemma requestHistory_recordRequest:
  "requestHistory (recordRequest rt now h) = trimWindow now (requestHistory h @ [now])"
  by (simp add: recordRequest_def Let_def split: option.splits)

text \<open>
  Requests recorded within the first 15 minutes of the clock are all kept, in the order of
  the calls.
\<close>

lemma requestsAt_history:
  assumes "\<forall>t \<in> set (requestHistory (healthOf s name)) \<union> set instants.
             0 \<le> t \<and> t < RATE_LIMIT_WINDOW_MS"
  shows "requestHistory (healthOf (requestsAt js name instants s) name)
           = requestHistory (healthOf s name) @ instants"
  using assms
proof (induction instants arbitrary: s)
  case Nil
  show ?case by (simp add: requestsAt_def)
next
  case (Cons now instants)
  let ?s1 = "snd (updateAccountHealth js True name False None None now s)"
  have "\<forall>t \<in> set (requestHistory (healthOf s name) @ [now]). now - t < RATE_LIMIT_WINDOW_MS"
  proof
    fix t
    assume "t \<in> set (requestHistory (healthOf s name) @ [now])"
    then have "t \<in> set (requestHistory (healthOf s name)) \<union> set (now # instants)" by auto
    with Cons.prems have "0 \<le> t" by blast
    moreover from Cons.prems have "now < RATE_LIMIT_WINDOW_MS" by simp
    ultimately show "now - t < RATE_LIMIT_WINDOW_MS" by simp
  qed
  then have keep: "trimWindow now (requestHistory (healthOf s name) @ [now])
                = requestHistory (healthOf s name) @ [now]"
    unfolding trimWindow_def by (rule filter_True)
  then have h1: "requestHistory (healthOf ?s1 name) = requestHistory (healthOf s name) @ [now]"
    by (simp add: updateAccountHealth_no_error requestHistory_recordRequest)
  with Cons.prems
  have "\<forall>t \<in> set (requestHistory (healthOf ?s1 name)) \<union> set instants.
          0 \<le> t \<and> t < RATE_LIMIT_WINDOW_MS" by auto
  from Cons.IH [OF this] h1
  have "requestHistory (healthOf (requestsAt js name instants ?s1) name)
          = requestHistory (healthOf s name) @ now # instants" by simp
  then show ?case by (simp add: requestsAt_def)
qed

lemma unordered_history:
  "requestHistory (healthOf unordered_provider ''alice'') = 9000 # replicate 199 5000"
proof -
  have "requestHistory (healthOf alice_provider ''alice'') = []"
    by (simp add: alice_provider_def provider_with_def healthOf_def newHealth_def)
  moreover from this
  have "\<forall>t \<in> set (requestHistory (healthOf alice_provider ''alice''))
                 \<union> set (9000 # replicate 199 5000). 0 \<le> t \<and> t < RATE_LIMIT_WINDOW_MS"
    by (simp add: RATE_LIMIT_WINDOW_MS_def)
  ultimately show ?thesis
    unfolding unordered_provider_def by (simp add: requestsAt_history)
qed

text \<open>
  C6 (as stated in the specification): a refusal comes with the wait
  \<open>15 minutes - (now - oldest remaining timestamp)\<close>. The account of \<open>unordered_provider\<close>
  made its first request at 9000 ms and, the wall clock having been set back, 199 more at
  5000 ms. At 10000 ms all 200 are in the window and the request is refused; the oldest
  remaining timestamp is 5000, for which the formula gives 895000 ms, and the provider
  answers 899000 ms, computed from the entry recorded first.
\<close>

theorem C6_counterexample:
  "requestHistory (healthOf unordered_provider ''alice'') = 9000 # replicate 199 5000
   \<and> \<not> canRequest (fst (canAccountMakeRequest ''alice'' 10000 unordered_provider))
   \<and> waitTime (fst (canAccountMakeRequest ''alice'' 10000 unordered_provider)) = Some 899000
   \<and> 15 * 60 * 1000
       - (10000 - Min (set (requestHistory
            (healthOf (snd (canAccountMakeRequest ''alice'' 10000 unordered_provider)) ''alice''))))
     = (895000 :: int)"
  by (simp add: unordered_history canAccountMakeRequest_eq trimWindow_def Let_def
      REQUESTS_PER_HOUR_def RATE_LIMIT_WINDOW_MS_def)

text \<open>
  C6 (amended): \<open>canAccountMakeRequest\<close> replaces the request history of the account by its
  entries younger than 15 minutes; it allows the request exactly when fewer than 200 entries
  remain, and otherwise refuses with the wait \<open>15 minutes - (now - first remaining entry)\<close>,
  the first in the order in which the requests were recorded. When the recorded times are
  in ascending order the first remaining entry is the oldest one.
\<close>

theorem C6_canRequest:
  assumes "canAccountMakeRequest name now s = (check, s')"
  shows "requestHistory (healthOf s' name)
           = filter (\<lambda>t. now - t < 15 * 60 * 1000) (requestHistory (healthOf s name))
       \<and> (canRequest check \<longleftrightarrow> length (requestHistory (healthOf s' name)) < 200)
       \<and> (canRequest check \<longrightarrow> waitTime check = None)
       \<and> (\<not> canRequest check \<longrightarrow>
            waitTime check
              = Some (15 * 60 * 1000 - (now - hd (requestHistory (healthOf s' name)))))
       \<and> (sorted (requestHistory (healthOf s name)) \<and> requestHistory (healthOf s' name) \<noteq> []
            \<longrightarrow> hd (requestHistory (healthOf s' name)) = Min (set (requestHistory (healthOf s' name))))"
proof -
  let ?old = "requestHistory (healthOf s name)"
  let ?new = "trimWindow now ?old"
  from assms have hist: "requestHistory (healthOf s' name) = ?new"
    by (auto simp: canAccountMakeRequest_eq Let_def)
  from assms have check: "check = (if length ?new < REQUESTS_PER_HOUR
                 then \<lparr>canRequest = True, waitTime = None\<rparr>
                 else \<lparr>canRequest = False,
                        waitTime = Some (RATE_LIMIT_WINDOW_MS - (now - ?new ! 0))\<rparr>)"
    by (auto simp: canAccountMakeRequest_eq Let_def)
  have nth0: "length ?new \<ge> REQUESTS_PER_HOUR \<Longrightarrow> ?new ! 0 = hd ?new"
    by (cases ?new) (auto simp: REQUESTS_PER_HOUR_def)
  have srt: "sorted ?old \<Longrightarrow> sorted ?new"
    by (simp add: trimWindow_def sorted_wrt_filter)
  show ?thesis
    using hist check nth0 srt hd_sorted_Min [of ?new]
    by (auto simp: trimWindow_def REQUESTS_PER_HOUR_def RATE_LIMIT_WINDOW_MS_def)
qed

theorem C6_canRequest_witness:
  "\<not> canRequest (fst (canAccountMakeRequest ''alice'' 6000 busy_provider))
   \<and> waitTime (fst (canAccountMakeRequest ''alice'' 6000 busy_provider)) = Some 899000
   \<and> length (requestHistory (healthOf (snd (canAccountMakeRequest ''alice'' 6000 busy_provider)) ''alice'')) = 200
   \<and> canRequest (fst (canAccountMakeRequest ''alice'' 905000 busy_provider))
   \<and> requestHistory (healthOf (snd (canAccountMakeRequest ''alice'' 905000 busy_provider)) ''alice'') = []"
proof -
  have h: "requestHistory (healthOf busy_provider ''alice'') = replicate 200 5000"
    by (simp add: busy_provider_def provider_with_def healthOf_def)
  show ?thesis
    using C6_canRequest [OF surjective_pairing, of "''alice''" 6000 busy_provider]
      C6_canRequest [OF surjective_pairing, of "''alice''" 905000 busy_provider]
    by (simp add: h)
qed

text \<open>The kinds whose case of the \<^verbatim>\<open>switch\<close> returns false at once.\<close>

definition terminal_kind :: "ErrorType \<Rightarrow> bool" where
  "terminal_kind k = (k = TIMEOUT \<or> k = ACCOUNT_LOCKED \<or> k = ACCOUNT_SUSPENDED)"


lemma updateAccountHealth_other:
  assumes "\<not> terminal_kind (classifyError P msg)"
  shows "updateAccountHealth P w name False (Some msg) rt now s =
     (let k = classifyError P msg;
          h = applyErrorKind k now (recordError k msg now (recordRequest rt now (healthOf s name)))
      in if countRecentAuthErrors h AUTH_ERROR_WINDOW_MS now \<ge> AUTH_ERROR_THRESHOLD
         then (False, setAccountHealth name (h\<lparr>status := DISABLED\<rparr>) s)
         else (True, setAccountHealth name h s))"
  using assms
  by (simp add: updateAccountHealth_def getAccountHealth_eq Let_def terminal_kind_def)

lemma recordRequest_fields [simp]:
  "status (recordRequest rt now h) = status h"
  "consecutiveFailures (recordRequest rt now h) = consecutiveFailures h"
  "errorHistory (recordRequest rt now h) = errorHistory h"
  "cooldownUntil (recordRequest rt now h) = cooldownUntil h"
  by (simp_all add: recordRequest_def Let_def split: option.splits)

lemma recordError_fields [simp]:
  "status (recordError k msg now h) = status h"
  "consecutiveFailures (recordError k msg now h) = consecutiveFailures h + 1"
  "errorHistory (recordError k msg now h)
     = push_bounded ERROR_HISTORY_LIMIT \<lparr>error_type = k, timestamp = now, message = msg\<rparr> (errorHistory h)"
  by (simp_all add: recordError_def)

lemma applyErrorKind_errorHistory [simp]:
  "errorHistory (applyErrorKind k now h) = errorHistory h"
  by (cases k) (simp_all add: applyErrorKind_def)

lemma push_bounded_length:
  "length xs \<le> limit \<Longrightarrow> length (push_bounded limit x xs) \<le> limit"
  by (simp add: push_bounded_def Let_def)

lemma countRecentAuthErrors_le:
  "countRecentAuthErrors h windowMs now \<le> length (errorHistory h)"
  by (simp add: countRecentAuthErrors_def)

lemma bounded_history_never_disables:
  assumes "length (errorHistory h) \<le> ERROR_HISTORY_LIMIT"
  shows "\<not> (countRecentAuthErrors
              (applyErrorKind k now (recordError k msg now (recordRequest rt now h)))
              AUTH_ERROR_WINDOW_MS now \<ge> AUTH_ERROR_THRESHOLD)"
proof -
  let ?h = "applyErrorKind k now (recordError k msg now (recordRequest rt now h))"
  have "length (errorHistory ?h) \<le> ERROR_HISTORY_LIMIT"
    using assms by (simp add: push_bounded_length)
  with countRecentAuthErrors_le [of ?h AUTH_ERROR_WINDOW_MS now]
  have "countRecentAuthErrors ?h AUTH_ERROR_WINDOW_MS now \<le> 25"
    by (simp add: ERROR_HISTORY_LIMIT_def)
  then show ?thesis by (simp add: AUTH_ERROR_THRESHOLD_def)
qed

lemma updateAccountHealth_other_bounded:
  assumes "\<not> terminal_kind (classifyError P msg)"
    and "length (errorHistory (healthOf s name)) \<le> ERROR_HISTORY_LIMIT"
  shows "updateAccountHealth P w name False (Some msg) rt now s =
     (True, setAccountHealth name
              (applyErrorKind (classifyError P msg) now
                 (recordError (classifyError P msg) msg now (recordRequest rt now (healthOf s name)))) s)"
  using bounded_history_never_disables [OF assms(2), of "classifyError P msg" now msg rt]
  by (simp add: updateAccountHealth_other [OF assms(1)] Let_def)




lemma classify_examples:
  "classifyError example_runtime ''Request timeout'' = TIMEOUT"
  "classifyError example_runtime ''boom'' = UNKNOWN"
  "classifyError example_runtime ''User not found'' = NOT_FOUND"
  "classifyError example_runtime ''Login failed'' = AUTH"
  by (simp_all add: classifyError_def ascii_toLowerCase_def ascii_toLowerCase_char_def
      example_runtime_def example_JSON_parse_def locked_body_text_def null_first_text_def
      json_errors_326_def)

lemma healthOf_alice: "healthOf alice_provider ''alice'' = newHealth"
  by (simp add: alice_provider_def provider_with_def healthOf_def)

lemma newHealth_fields [simp]:
  "status newHealth = HEALTHY" "consecutiveFailures newHealth = 0" "errorHistory newHealth = []"
  by (simp_all add: newHealth_def)






lemma one_failure_health:
  "healthOf one_failure_provider ''alice''
     = applyErrorKind UNKNOWN 1000 (recordError UNKNOWN ''boom'' 1000 (recordRequest None 1000 newHealth))"
proof -
  have t: "\<not> terminal_kind (classifyError example_runtime ''boom'')"
    by (simp add: classify_examples terminal_kind_def)
  have b: "length (errorHistory (healthOf alice_provider ''alice'')) \<le> ERROR_HISTORY_LIMIT"
    by (simp add: healthOf_alice)
  show ?thesis
    unfolding one_failure_provider_def updateAccountHealth_other_bounded [OF t b] classify_examples
    by (simp add: healthOf_alice)
qed

lemma one_failure_fields:
  "consecutiveFailures (healthOf one_failure_provider ''alice'') = 1"
  "status (healthOf one_failure_provider ''alice'') = HEALTHY"
  "length (errorHistory (healthOf one_failure_provider ''alice'')) \<le> ERROR_HISTORY_LIMIT"
  unfolding one_failure_health
  by (simp_all add: applyErrorKind_def MAX_CONSECUTIVE_FAILURES_def push_bounded_def
      ERROR_HISTORY_LIMIT_def)

text \<open>
  C7 (as stated in the specification): a failure classified \<open>NOT_FOUND\<close> leaves
  \<open>consecutiveFailures\<close> one lower than before the call. After one failure of unknown kind the
  counter of the account is 1; a following failure \<open>User not found\<close> leaves it at 1, not 0.
\<close>

theorem C7_counterexample:
  "classifyError example_runtime ''User not found'' = NOT_FOUND
   \<and> consecutiveFailures (healthOf one_failure_provider ''alice'') = 1
   \<and> consecutiveFailures (healthOf (snd (updateAccountHealth example_runtime True ''alice'' False
         (Some ''User not found'') None 2000 one_failure_provider)) ''alice'') = 1"
proof -
  have t: "\<not> terminal_kind (classifyError example_runtime ''User not found'')"
    by (simp add: classify_examples terminal_kind_def)
  have "consecutiveFailures (healthOf (snd (updateAccountHealth example_runtime True ''alice'' False
         (Some ''User not found'') None 2000 one_failure_provider)) ''alice'') = 1"
    unfolding updateAccountHealth_other_bounded [OF t one_failure_fields(3)] classify_examples
    by (simp add: applyErrorKind_def one_failure_fields)
  then show ?thesis by (simp add: classify_examples one_failure_fields)
qed

text \<open>
  C7 (amended): for every account whose error history is within its limit of 25 entries and
  every failure classified \<open>NOT_FOUND\<close>, \<open>updateAccountHealth\<close> leaves \<open>consecutiveFailures\<close> at
  the value it had before the call (the increment that every failure gets is taken back),
  changes no status, and returns true.
\<close>

theorem C7_not_found:
  assumes "classifyError js msg = NOT_FOUND"
    and "length (errorHistory (healthOf s name)) \<le> ERROR_HISTORY_LIMIT"
    and "updateAccountHealth js write_ok name False (Some msg) responseTimeMs now s
           = (keepUsable, s')"
  shows "consecutiveFailures (healthOf s' name) = consecutiveFailures (healthOf s name)
       \<and> status (healthOf s' name) = status (healthOf s name)
       \<and> keepUsable"
proof -
  from assms(1) have t: "\<not> terminal_kind (classifyError js msg)" by (simp add: terminal_kind_def)
  from assms(3) show ?thesis
    unfolding updateAccountHealth_other_bounded [OF t assms(2)] assms(1)
    by (auto simp: applyErrorKind_def)
qed

theorem C7_not_found_witness:
  "consecutiveFailures (healthOf (snd (updateAccountHealth example_runtime True ''alice'' False
         (Some ''User not found'') None 2000 one_failure_provider)) ''alice'') = 1
   \<and> status (healthOf (snd (updateAccountHealth example_runtime True ''alice'' False
         (Some ''User not found'') None 2000 one_failure_provider)) ''alice'') = HEALTHY
   \<and> fst (updateAccountHealth example_runtime True ''alice'' False
         (Some ''User not found'') None 2000 one_failure_provider)"
  using C7_not_found [OF classify_examples(3) one_failure_fields(3) surjective_pairing,
      of True None 2000]
  by (simp add: one_failure_fields)

lemma auth_step_fields:
  "consecutiveFailures (applyErrorKind AUTH now (recordError AUTH msg now (recordRequest rt now h)))
     = consecutiveFailures h + 1"
  "status (applyErrorKind AUTH now (recordError AUTH msg now (recordRequest rt now h)))
     = (if consecutiveFailures h + 1 \<ge> 5 then COOLDOWN else status h)"
  "length (errorHistory h) \<le> ERROR_HISTORY_LIMIT \<Longrightarrow>
   length (errorHistory (applyErrorKind AUTH now (recordError AUTH msg now (recordRequest rt now h))))
     \<le> ERROR_HISTORY_LIMIT"
  by (simp_all add: applyErrorKind_def push_bounded_length)

lemma repeatFailure_auth:
  assumes "classifyError P msg = AUTH"
  shows "length (errorHistory (healthOf s name)) \<le> ERROR_HISTORY_LIMIT \<Longrightarrow>
         status (healthOf s name) \<noteq> DISABLED \<Longrightarrow>
         list_all (\<lambda>r. r) (fst (repeatFailure P w name msg instants s))
         \<and> status (healthOf (snd (repeatFailure P w name msg instants s)) name) \<noteq> DISABLED
         \<and> consecutiveFailures (healthOf (snd (repeatFailure P w name msg instants s)) name)
             = consecutiveFailures (healthOf s name) + length instants
         \<and> (instants \<noteq> [] \<and> 5 \<le> consecutiveFailures (healthOf s name) + length instants \<longrightarrow>
              status (healthOf (snd (repeatFailure P w name msg instants s)) name) = COOLDOWN)"
proof (induction instants arbitrary: s)
  case Nil
  then show ?case by simp
next
  case (Cons now instants)
  from assms have t: "\<not> terminal_kind (classifyError P msg)" by (simp add: terminal_kind_def)
  let ?h = "applyErrorKind AUTH now (recordError AUTH msg now (recordRequest None now (healthOf s name)))"
  let ?s1 = "setAccountHealth name ?h s"
  have step: "updateAccountHealth P w name False (Some msg) None now s = (True, ?s1)"
    unfolding updateAccountHealth_other_bounded [OF t Cons.prems(1)] assms ..
  have h1: "healthOf ?s1 name = ?h" by simp
  have b1: "length (errorHistory (healthOf ?s1 name)) \<le> ERROR_HISTORY_LIMIT"
    unfolding h1 using Cons.prems(1) by (rule auth_step_fields(3))
  have d1: "status (healthOf ?s1 name) \<noteq> DISABLED"
    unfolding h1 auth_step_fields(2) using Cons.prems(2) by simp
  note IH = Cons.IH [OF b1 d1]
  have unfold: "repeatFailure P w name msg (now # instants) s
                  = (True # fst (repeatFailure P w name msg instants ?s1),
                     snd (repeatFailure P w name msg instants ?s1))"
    by (simp add: step split: prod.splits)
  have cf1: "consecutiveFailures (healthOf ?s1 name) = consecutiveFailures (healthOf s name) + 1"
    unfolding h1 by (rule auth_step_fields(1))
  have st1: "status (healthOf ?s1 name)
               = (if consecutiveFailures (healthOf s name) + 1 \<ge> 5 then COOLDOWN
                  else status (healthOf s name))"
    unfolding h1 by (rule auth_step_fields(2))
  show ?case
  proof (cases "instants = []")
    case True
    then show ?thesis unfolding unfold using d1 cf1 st1 by simp
  next
    case False
    with IH show ?thesis unfolding unfold cf1 by simp
  qed
qed

text \<open>
  C4: the error history keeps the last 25 errors only, so the number of \<open>AUTH\<close> errors that
  \<open>updateAccountHealth\<close> counts in it never reaches the threshold of 50. Starting from a new
  account, every call in a run of failures classified \<open>AUTH\<close> returns true, whatever the
  instants of the calls, the status is never \<open>DISABLED\<close>, and from the fifth failure on it is
  \<open>COOLDOWN\<close>. The run of 50 failures \<open>Login failed\<close>, one per second, is the instance
  below.
\<close>

theorem C4_auth_failures_never_disable:
  assumes "classifyError js msg = AUTH"
  shows "list_all (\<lambda>keepUsable. keepUsable)
           (fst (repeatFailure js write_ok name msg instants (fresh_provider pool)))
       \<and> status (healthOf (snd (repeatFailure js write_ok name msg instants
                                  (fresh_provider pool))) name) \<noteq> DISABLED
       \<and> (5 \<le> length instants \<longrightarrow>
            status (healthOf (snd (repeatFailure js write_ok name msg instants
                                     (fresh_provider pool))) name) = COOLDOWN)"
proof -
  have h: "healthOf (fresh_provider pool) name = newHealth"
    by (simp add: fresh_provider_def healthOf_def)
  have "length (errorHistory (healthOf (fresh_provider pool) name)) \<le> ERROR_HISTORY_LIMIT"
    and "status (healthOf (fresh_provider pool) name) \<noteq> DISABLED"
    unfolding h by simp_all
  from repeatFailure_auth [OF assms this, of write_ok instants]
  show ?thesis unfolding h by auto
qed

theorem C4_fifty_auth_failures:
  "length (map (\<lambda>k. 1000 * int k) [1 ..< 51]) = 50
   \<and> list_all (\<lambda>keepUsable. keepUsable)
        (fst (repeatFailure example_runtime True ''alice'' ''Login failed''
                (map (\<lambda>k. 1000 * int k) [1 ..< 51]) (fresh_provider [])))
   \<and> status (healthOf (snd (repeatFailure example_runtime True ''alice'' ''Login failed''
                (map (\<lambda>k. 1000 * int k) [1 ..< 51]) (fresh_provider []))) ''alice'') = COOLDOWN
   \<and> status (healthOf (snd (repeatFailure example_runtime True ''alice'' ''Login failed''
                (map (\<lambda>k. 1000 * int k) [1 ..< 51]) (fresh_provider []))) ''alice'') \<noteq> DISABLED"
proof -
  have len: "length (map (\<lambda>k. 1000 * int k) [1 ..< 51]) = 50" by simp
  from C4_auth_failures_never_disable [OF classify_examples(4), of True "''alice''"
      "map (\<lambda>k. 1000 * int k) [1 ..< 51]" "[]"] len
  show ?thesis by simp
qed

section \<open>Results on the proxy pool\<close>

lemma assign_proxies [simp]: "proxies (snd (assignProxyToAccount name s)) = proxies s"
  by (simp add: assignProxyToAccount_def Let_def split: option.splits)

lemma assign_keeps_binding:
  assumes "map_of (proxyAssignment s) name = Some p"
  shows "map_of (proxyAssignment (snd (assignProxyToAccount name' s))) name = Some p"
  using assms
  by (auto simp: assignProxyToAccount_def Let_def update_conv' split: option.splits)

lemma assign_all_keeps_binding:
  "map_of (proxyAssignment s) name = Some p \<Longrightarrow>
   map_of (proxyAssignment (assign_all names s)) name = Some p"
proof (induction names arbitrary: s)
  case Nil
  then show ?case by (simp add: assign_all_def)
next
  case (Cons n ns)
  from Cons.prems have "map_of (proxyAssignment (snd (assignProxyToAccount n s))) name = Some p"
    by (rule assign_keeps_binding)
  from Cons.IH [OF this] show ?case by (simp add: assign_all_def)
qed

lemma assign_result_bound:
  "fst (assignProxyToAccount name s) = Some p \<Longrightarrow>
   map_of (proxyAssignment (snd (assignProxyToAccount name s))) name = Some p"
  by (auto simp: assignProxyToAccount_def Let_def update_conv' split: option.splits if_splits)

lemma assign_bound_result:
  "map_of (proxyAssignment s) name = Some p \<Longrightarrow> fst (assignProxyToAccount name s) = Some p"
  by (simp add: assignProxyToAccount_def)

lemma assign_all_empty_pool:
  "proxies s = [] \<Longrightarrow> proxyAssignment s = [] \<Longrightarrow> assign_all names s = s"
proof (induction names)
  case Nil
  then show ?case by (simp add: assign_all_def)
next
  case (Cons n ns)
  then have "snd (assignProxyToAccount n s) = s" by (simp add: assignProxyToAccount_def)
  with Cons show ?case by (simp add: assign_all_def)
qed

lemma assign_keys:
  assumes "proxies s \<noteq> []"
  shows "fst ` set (proxyAssignment (snd (assignProxyToAccount name s)))
           = insert name (fst ` set (proxyAssignment s))"
proof (cases "map_of (proxyAssignment s) name")
  case None
  with assms show ?thesis by (simp add: assignProxyToAccount_def Let_def dom_update)
next
  case (Some p)
  then have "name \<in> fst ` set (proxyAssignment s)"
    using map_of_eq_None_iff [of "proxyAssignment s" name] by auto
  with Some show ?thesis by (auto simp: assignProxyToAccount_def)
qed

lemma assign_distinct:
  "distinct (map fst (proxyAssignment s)) \<Longrightarrow>
   distinct (map fst (proxyAssignment (snd (assignProxyToAccount name s))))"
  by (auto simp: assignProxyToAccount_def Let_def distinct_update split: option.splits)

lemma assign_all_keys:
  "proxies s \<noteq> [] \<Longrightarrow> distinct (map fst (proxyAssignment s)) \<Longrightarrow>
   fst ` set (proxyAssignment (assign_all names s)) = set names \<union> fst ` set (proxyAssignment s)
   \<and> distinct (map fst (proxyAssignment (assign_all names s)))"
proof (induction names arbitrary: s)
  case Nil
  then show ?case by (simp add: assign_all_def)
next
  case (Cons n ns)
  let ?s1 = "snd (assignProxyToAccount n s)"
  have "proxies ?s1 \<noteq> []" using Cons.prems by simp
  moreover have "distinct (map fst (proxyAssignment ?s1))" using Cons.prems by (simp add: assign_distinct)
  ultimately have "fst ` set (proxyAssignment (assign_all ns ?s1)) = set ns \<union> fst ` set (proxyAssignment ?s1)
     \<and> distinct (map fst (proxyAssignment (assign_all ns ?s1)))" by (rule Cons.IH)
  moreover have "assign_all (n # ns) s = assign_all ns ?s1" by (simp add: assign_all_def)
  ultimately show ?case using assign_keys [OF Cons.prems(1), of n] by auto
qed

lemma assign_all_size:
  assumes "pool \<noteq> []"
  shows "length (proxyAssignment (assign_all names (fresh_provider pool))) = card (set names)"
proof -
  let ?pa = "proxyAssignment (assign_all names (fresh_provider pool))"
  have "fst ` set ?pa = set names \<and> distinct (map fst ?pa)"
    using assign_all_keys [of "fresh_provider pool" names] assms by (simp add: fresh_provider_def)
  then have keys: "fst ` set ?pa = set names" and dist: "distinct (map fst ?pa)" by simp_all
  from distinct_card [OF dist] have "card (fst ` set ?pa) = length ?pa" by simp
  with keys show ?thesis by simp
qed


text \<open>
  C9: a username without a proxy gets the proxy at index \<open>assignedCount mod |proxies|\<close> of a
  non-empty pool, where \<open>assignedCount\<close> is the size of the assignment; that size is the
  number of usernames assigned so far. Once an assignment has returned a proxy for a
  username, every later assignment for it, after any number of assignments for other
  usernames, returns the same proxy. With an empty pool every assignment returns none.
\<close>

theorem C9_proxy_assignment:
  "(map_of (proxyAssignment s) name = None \<and> proxies s \<noteq> [] \<longrightarrow>
      fst (assignProxyToAccount name s)
        = Some (length (proxyAssignment s) mod length (proxies s)))
   \<and> (fst (assignProxyToAccount name s) = Some p \<longrightarrow>
        fst (assignProxyToAccount name (assign_all names (snd (assignProxyToAccount name s))))
          = Some p)
   \<and> (pool \<noteq> [] \<longrightarrow>
        length (proxyAssignment (assign_all names (fresh_provider pool))) = card (set names))
   \<and> (pool = [] \<longrightarrow>
        fst (assignProxyToAccount name (assign_all names (fresh_provider pool))) = None)"
proof (intro conjI impI)
  assume "map_of (proxyAssignment s) name = None \<and> proxies s \<noteq> []"
  then show "fst (assignProxyToAccount name s)
        = Some (length (proxyAssignment s) mod length (proxies s))"
    by (simp add: assignProxyToAccount_def Let_def)
next
  assume "fst (assignProxyToAccount name s) = Some p"
  then have "map_of (proxyAssignment (snd (assignProxyToAccount name s))) name = Some p"
    by (rule assign_result_bound)
  then have "map_of (proxyAssignment (assign_all names (snd (assignProxyToAccount name s)))) name = Some p"
    by (rule assign_all_keeps_binding)
  then show "fst (assignProxyToAccount name (assign_all names (snd (assignProxyToAccount name s)))) = Some p"
    by (rule assign_bound_result)
next
  assume "pool \<noteq> []"
  then show "length (proxyAssignment (assign_all names (fresh_provider pool))) = card (set names)"
    by (rule assign_all_size)
next
  assume "pool = []"
  then have "assign_all names (fresh_provider pool) = fresh_provider pool"
    by (intro assign_all_empty_pool) (simp_all add: fresh_provider_def)
  then show "fst (assignProxyToAccount name (assign_all names (fresh_provider pool))) = None"
    using \<open>pool = []\<close> by (simp add: assignProxyToAccount_def fresh_provider_def)
qed


theorem C9_proxy_assignment_witness:
  "fst (assignProxyToAccount ''dave'' (assign_all [''alice'', ''bob'', ''carol'', ''alice''] (fresh_provider example_pool))) = Some 0
   \<and> fst (assignProxyToAccount ''bob'' (assign_all [''alice''] (fresh_provider example_pool))) = Some 1
   \<and> fst (assignProxyToAccount ''bob'' (assign_all [''carol'', ''dave'']
             (snd (assignProxyToAccount ''bob'' (assign_all [''alice''] (fresh_provider example_pool)))))) = Some 1
   \<and> fst (assignProxyToAccount ''alice'' (assign_all [''bob''] (fresh_provider []))) = None"
proof -
  let ?s3 = "assign_all [''alice'', ''bob'', ''carol'', ''alice''] (fresh_provider example_pool)"
  let ?s1 = "assign_all [''alice''] (fresh_provider example_pool)"
  have pool: "example_pool \<noteq> []" "length example_pool = 3" by (simp_all add: example_pool_def)
  have s3: "map_of (proxyAssignment ?s3) ''dave'' = None" "proxies ?s3 = example_pool"
    by (simp_all add: assign_all_def assignProxyToAccount_def fresh_provider_def pool Let_def)
  have s1: "map_of (proxyAssignment ?s1) ''bob'' = None" "proxies ?s1 = example_pool"
    by (simp_all add: assign_all_def assignProxyToAccount_def fresh_provider_def pool Let_def)
  have "set [''alice'', ''bob'', ''carol'', ''alice''] = {''alice'', ''bob'', ''carol''}" by auto
  then have card3: "card (set [''alice'', ''bob'', ''carol'', ''alice'']) = 3" by simp
  have card1: "card (set [''alice'']) = 1" by simp
  from C9_proxy_assignment [of ?s3 "''dave''" 0 "[''alice'', ''bob'', ''carol'', ''alice'']" example_pool]
  have a: "fst (assignProxyToAccount ''dave'' ?s3) = Some 0"
    using s3 pool card3 by simp
  from C9_proxy_assignment [of ?s1 "''bob''" 1 "[''alice'']" example_pool]
  have b: "fst (assignProxyToAccount ''bob'' ?s1) = Some 1"
    using s1 pool card1 by simp
  from C9_proxy_assignment [of ?s1 "''bob''" 1 "[''carol'', ''dave'']" example_pool] b
  have c: "fst (assignProxyToAccount ''bob'' (assign_all [''carol'', ''dave'']
             (snd (assignProxyToAccount ''bob'' ?s1)))) = Some 1" by simp
  from C9_proxy_assignment [of ?s1 "''alice''" 1 "[''bob'']" "[]"]
  have d: "fst (assignProxyToAccount ''alice'' (assign_all [''bob''] (fresh_provider []))) = None"
    by simp
  from a b c d show ?thesis by simp
qed

section \<open>Results on loading the registry\<close>

lemma load_fix_simps:
  "username (load_fix c) = username c"
  "isLocked (load_fix c) = isLocked c"
  "\<not> isLocked c \<Longrightarrow> usable (load_fix c)"
  by (simp_all add: load_fix_def)

lemma in_loaded:
  assumes "c \<in> set (map load_fix accs)"
  shows "\<exists>d \<in> set accs. username d = username c \<and> isLocked d = isLocked c
            \<and> (\<not> isLocked c \<longrightarrow> usable c)"
proof -
  from assms have "c \<in> load_fix ` set accs" by simp
  then obtain d where d: "d \<in> set accs" "c = load_fix d" by (rule imageE)
  show ?thesis
  proof (rule bexI)
    show "d \<in> set accs" by fact
    show "username d = username c \<and> isLocked d = isLocked c \<and> (\<not> isLocked c \<longrightarrow> usable c)"
      unfolding d(2) by (simp add: load_fix_simps)
  qed
qed

lemma load_callback_fst: "fst (load_callback c hm) = load_fix c"
  by (simp add: load_callback_def load_fix_def Let_def)

lemma load_callback_locks:
  "isLocked c \<Longrightarrow> \<exists>h. snd (load_callback c hm) (username c) = Some h \<and> status h = LOCKED"
  by (cases "hm (username c)") (simp_all add: load_callback_def Let_def)

lemma load_callback_keeps_locked:
  assumes "hm name = Some h" "status h = LOCKED"
  shows "\<exists>h'. snd (load_callback c hm) name = Some h' \<and> status h' = LOCKED"
proof (cases "username c = name")
  case True
  with assms show ?thesis by (simp add: load_callback_def Let_def)
next
  case False
  with assms show ?thesis
    by (cases "hm (username c)") (simp_all add: load_callback_def Let_def)
qed

lemma load_forEach_Cons:
  "load_forEach (c # cs) hm =
     (fst (load_callback c hm) # fst (load_forEach cs (snd (load_callback c hm))),
      snd (load_forEach cs (snd (load_callback c hm))))"
  by (simp add: Let_def split: prod.splits)

lemma load_forEach_fst:
  "fst (load_forEach accs hm) = map load_fix accs"
proof (induction accs arbitrary: hm)
  case Nil
  show ?case by simp
next
  case (Cons c cs)
  show ?case unfolding load_forEach_Cons by (simp add: Cons.IH load_callback_fst)
qed

lemma load_forEach_keeps_locked:
  "hm name = Some h \<Longrightarrow> status h = LOCKED \<Longrightarrow>
   \<exists>h'. snd (load_forEach accs hm) name = Some h' \<and> status h' = LOCKED"
proof (induction accs arbitrary: hm h)
  case Nil
  then show ?case by simp
next
  case (Cons c cs)
  from load_callback_keeps_locked [of hm name h c, OF Cons.prems]
  obtain h2 where h2: "snd (load_callback c hm) name = Some h2" "status h2 = LOCKED" by blast
  have "\<exists>h'. snd (load_forEach cs (snd (load_callback c hm))) name = Some h' \<and> status h' = LOCKED"
    using Cons.IH [of "snd (load_callback c hm)" h2] h2 by blast
  then show ?case unfolding load_forEach_Cons by simp
qed

lemma load_forEach_locks:
  "c \<in> set accs \<Longrightarrow> isLocked c \<Longrightarrow>
   \<exists>h'. snd (load_forEach accs hm) (username c) = Some h' \<and> status h' = LOCKED"
proof (induction accs arbitrary: hm)
  case Nil
  then show ?case by simp
next
  case (Cons d ds)
  show ?case
  proof (cases "c = d")
    case True
    from load_callback_locks [OF Cons.prems(2), of hm] True
    obtain h2 where h2: "snd (load_callback d hm) (username c) = Some h2" "status h2 = LOCKED"
      by blast
    have "\<exists>h'. snd (load_forEach ds (snd (load_callback d hm))) (username c) = Some h' \<and> status h' = LOCKED"
      using load_forEach_keeps_locked [of "snd (load_callback d hm)" "username c" h2 ds] h2 by blast
    then show ?thesis unfolding load_forEach_Cons by simp
  next
    case False
    with Cons.prems have "c \<in> set ds" by simp
    then have "\<exists>h'. snd (load_forEach ds (snd (load_callback d hm))) (username c) = Some h' \<and> status h' = LOCKED"
      using Cons.IH [of "snd (load_callback d hm)"] Cons.prems(2) by blast
    then show ?thesis unfolding load_forEach_Cons by simp
  qed
qed

lemma loadCredentials_fields:
  assumes "\<not> loadingCredentials s" and "\<not> (credentialsLoaded s \<and> credentials s \<noteq> [])"
  shows "credentials (loadCredentials s) =
           (case data_json s of None \<Rightarrow> [] | Some accs \<Rightarrow> fst (load_forEach accs (accountHealth s)))"
    and "accountHealth (loadCredentials s) =
           (case data_json s of None \<Rightarrow> accountHealth s
            | Some accs \<Rightarrow> snd (load_forEach accs (accountHealth s)))"
proof -
  from assms(2) have guard: "(credentialsLoaded s \<and> length (credentials s) > 0) = False" by simp
  show "credentials (loadCredentials s) =
           (case data_json s of None \<Rightarrow> [] | Some accs \<Rightarrow> fst (load_forEach accs (accountHealth s)))"
    unfolding loadCredentials_def guard using assms(1)
    by (simp add: case_prod_beta split: option.split)
  show "accountHealth (loadCredentials s) =
           (case data_json s of None \<Rightarrow> accountHealth s
            | Some accs \<Rightarrow> snd (load_forEach accs (accountHealth s)))"
    unfolding loadCredentials_def guard using assms(1)
    by (simp add: case_prod_beta split: option.split)
qed

text \<open>
  C10: after a load that is not skipped (as it is while another load runs, or when
  accounts are loaded already) every account in memory that is not locked is usable, and
  every locked account has health status \<open>LOCKED\<close>. The accounts in memory are those of
  the file, with \<open>usable\<close> set on the unlocked ones whatever the file said; an unreadable
  file leaves no account.
\<close>

theorem C10_load:
  assumes "\<not> loadingCredentials s" and "\<not> (credentialsLoaded s \<and> credentials s \<noteq> [])"
  shows "(\<forall>c \<in> set (credentials (loadCredentials s)).
            (\<not> isLocked c \<longrightarrow> usable c)
            \<and> (isLocked c \<longrightarrow> status (healthOf (loadCredentials s) (username c)) = LOCKED))
         \<and> (case data_json s of
               None \<Rightarrow> credentials (loadCredentials s) = []
             | Some accs \<Rightarrow> credentials (loadCredentials s) = map load_fix accs)"
proof (cases "data_json s")
  case None
  with loadCredentials_fields(1) [OF assms] have c: "credentials (loadCredentials s) = []" by simp
  have "\<forall>c \<in> set (credentials (loadCredentials s)).
            (\<not> isLocked c \<longrightarrow> usable c)
            \<and> (isLocked c \<longrightarrow> status (healthOf (loadCredentials s) (username c)) = LOCKED)"
    unfolding c by simp
  moreover have "case data_json s of
               None \<Rightarrow> credentials (loadCredentials s) = []
             | Some accs \<Rightarrow> credentials (loadCredentials s) = map load_fix accs"
    unfolding None option.case by (rule c)
  ultimately show ?thesis by (rule conjI)
next
  case (Some accs)
  let ?hm = "snd (load_forEach accs (accountHealth s))"
  from loadCredentials_fields [OF assms] Some
  have c: "credentials (loadCredentials s) = fst (load_forEach accs (accountHealth s))"
    and h: "accountHealth (loadCredentials s) = ?hm" by simp_all
  have creds: "credentials (loadCredentials s) = map load_fix accs"
    unfolding c by (rule load_forEach_fst)
  have each: "(\<not> isLocked c \<longrightarrow> usable c)
            \<and> (isLocked c \<longrightarrow> status (healthOf (loadCredentials s) (username c)) = LOCKED)"
    if "c \<in> set (credentials (loadCredentials s))" for c
  proof -
    from that have "c \<in> set (map load_fix accs)" unfolding creds .
    from in_loaded [OF this] obtain d where d: "d \<in> set accs" "username d = username c"
      "isLocked d = isLocked c" "\<not> isLocked c \<longrightarrow> usable c" by (elim bexE conjE)
    have "status (healthOf (loadCredentials s) (username c)) = LOCKED" if "isLocked c"
    proof -
      from that d(3) have "isLocked d" by simp
      from load_forEach_locks [OF d(1) this, of "accountHealth s"]
      obtain h' where "?hm (username d) = Some h'" "status h' = LOCKED" by (elim exE conjE)
      then show ?thesis unfolding healthOf_def h d(2) [symmetric] by simp
    qed
    with d(4) show ?thesis by simp
  qed
  then have "\<forall>c \<in> set (credentials (loadCredentials s)).
            (\<not> isLocked c \<longrightarrow> usable c)
            \<and> (isLocked c \<longrightarrow> status (healthOf (loadCredentials s) (username c)) = LOCKED)"
    by (rule ballI)
  moreover have "case data_json s of
               None \<Rightarrow> credentials (loadCredentials s) = []
             | Some accs \<Rightarrow> credentials (loadCredentials s) = map load_fix accs"
    unfolding Some option.case by (rule creds)
  ultimately show ?thesis by (rule conjI)
qed

theorem C10_load_witness:
  "credentials (loadCredentials ((fresh_provider [])\<lparr>data_json := Some stored_accounts\<rparr>))
     = [example_account ''alice'' True False, example_account ''bob'' False True]
   \<and> status (healthOf (loadCredentials ((fresh_provider [])\<lparr>data_json := Some stored_accounts\<rparr>)) ''bob'') = LOCKED"
proof -
  let ?s = "(fresh_provider [])\<lparr>data_json := Some stored_accounts\<rparr>"
  have pre: "\<not> loadingCredentials ?s" "\<not> (credentialsLoaded ?s \<and> credentials ?s \<noteq> [])"
    by (simp_all add: fresh_provider_def)
  have fixed: "map load_fix stored_accounts
               = [example_account ''alice'' True False, example_account ''bob'' False True]"
    by (simp add: stored_accounts_def load_fix_def example_account_def)
  from C10_load [OF pre]
  have all: "\<forall>c \<in> set (credentials (loadCredentials ?s)).
            (\<not> isLocked c \<longrightarrow> usable c)
            \<and> (isLocked c \<longrightarrow> status (healthOf (loadCredentials ?s) (username c)) = LOCKED)"
    and creds: "credentials (loadCredentials ?s) = map load_fix stored_accounts"
    by simp_all
  from creds fixed have c: "credentials (loadCredentials ?s)
     = [example_account ''alice'' True False, example_account ''bob'' False True]" by simp
  have "example_account ''bob'' False True \<in> set (credentials (loadCredentials ?s))"
    unfolding c by simp
  with all have "isLocked (example_account ''bob'' False True) \<longrightarrow>
      status (healthOf (loadCredentials ?s) (username (example_account ''bob'' False True))) = LOCKED"
    by blast
  then have "status (healthOf (loadCredentials ?s) ''bob'') = LOCKED"
    by (simp add: example_account_def)
  with c show ?thesis by simp
qed

section \<open>Results on account selection\<close>







lemma credentials_getAccountHealth [simp]:
  "credentials (snd (getAccountHealth name s)) = credentials s"
  unfolding getAccountHealth_eq snd_conv by (simp add: setAccountHealth_fields)

lemma credentials_canAccountMakeRequest [simp]:
  "credentials (snd (canAccountMakeRequest name now s)) = credentials s"
  unfolding canAccountMakeRequest_eq Let_def snd_conv by (simp add: setAccountHealth_fields)





















end
